theory Spec2Isabelle
  imports Complex_Main "HOL-Library.Log_Nat"
begin

section \<open>Python floats (IEEE 754 binary64)\<close>

text \<open>
  The ledger stores amounts as Python \<^verbatim>\<open>float\<close>s. A finite float is modelled by its exact
  rational value; the two zeros are identified (Python's \<^verbatim>\<open>==\<close> does not tell them apart).
  Every arithmetic operation computes the exact rational result and rounds it to the nearest
  binary64 value, ties to even, as IEEE 754 prescribes.
\<close>

datatype pyfloat = Fin rat | PInf | NInf | NaN

definition round_half_even :: "rat \<Rightarrow> int" where
  "round_half_even x =
     (let f = \<lfloor>x\<rfloor>; r = x - of_int f
      in if r < 1 / 2 then f else if 1 / 2 < r then f + 1 else if even f then f else f + 1)"

text \<open>\<open>ilog2 x\<close> is the binary exponent \<open>\<lfloor>log\<^sub>2 x\<rfloor>\<close> of a positive rational.\<close>

definition ilog2 :: "rat \<Rightarrow> int" where
  "ilog2 x = (if 1 \<le> x then bitlen \<lfloor>x\<rfloor> - 1 else - bitlen (\<lceil>1 / x\<rceil> - 1))"

text \<open>
  \<open>fl x\<close> rounds to 53 significant bits, with the exponent of the last place not below
  \<open>-1074\<close> (subnormal range); \<open>rnd\<close> adds the overflow to an infinity.
\<close>

definition fl :: "rat \<Rightarrow> rat" where
  "fl x = (if x = 0 then 0
     else let e = max (ilog2 \<bar>x\<bar> - 52) (- 1074)
          in of_int (round_half_even (x / 2 powi e)) * 2 powi e)"

definition rnd :: "rat \<Rightarrow> pyfloat" where
  "rnd x = (let y = fl x
     in if 2 ^ 1024 \<le> y then PInf else if y \<le> - (2 ^ 1024) then NInf else Fin y)"

fun fneg :: "pyfloat \<Rightarrow> pyfloat" where
  "fneg (Fin a) = Fin (- a)"
| "fneg PInf = NInf"
| "fneg NInf = PInf"
| "fneg NaN = NaN"

fun fadd :: "pyfloat \<Rightarrow> pyfloat \<Rightarrow> pyfloat" where
  "fadd (Fin a) (Fin b) = rnd (a + b)"
| "fadd NaN _ = NaN"
| "fadd _ NaN = NaN"
| "fadd PInf NInf = NaN"
| "fadd NInf PInf = NaN"
| "fadd PInf _ = PInf"
| "fadd NInf _ = NInf"
| "fadd _ PInf = PInf"
| "fadd _ NInf = NInf"

definition fsub :: "pyfloat \<Rightarrow> pyfloat \<Rightarrow> pyfloat" where
  "fsub a b = fadd a (fneg b)"

text \<open>\<^verbatim>\<open>a <= b\<close> on floats: every comparison with a NaN is false.\<close>

fun fle :: "pyfloat \<Rightarrow> pyfloat \<Rightarrow> bool" where
  "fle NaN _ = False"
| "fle _ NaN = False"
| "fle NInf _ = True"
| "fle _ PInf = True"
| "fle (Fin a) (Fin b) = (a \<le> b)"
| "fle _ _ = False"

text \<open>
  \<^verbatim>\<open>round(x, 2)\<close>: the exact value of \<open>x\<close> is rounded half-even to a multiple of
  \<open>1/100\<close>, and that decimal is converted to the nearest float. Infinities and NaN round to
  themselves.
\<close>

fun round2 :: "pyfloat \<Rightarrow> pyfloat" where
  "round2 (Fin x) = rnd (of_int (round_half_even (x * 100)) / 100)"
| "round2 PInf = PInf"
| "round2 NInf = NInf"
| "round2 NaN = NaN"

section \<open>Python strings\<close>



section \<open>Data model\<close>

text \<open>
  \<^verbatim>\<open>class Transaction(TypedDict)\<close>. The \<^verbatim>\<open>Literal["income", "expense"]\<close> of the
  \<^verbatim>\<open>type\<close> key is not enforced at run time, so the field is a string.
\<close>

record transaction =
  tx_id :: int
  date :: string
  tx_type :: string
  category :: string
  amount :: pyfloat
  description :: string

text \<open>The two attributes of \<^verbatim>\<open>PersonalFinanceLedger\<close> next to the path of its data file.\<close>

record ledger =
  data_file :: string
  transactions :: "transaction list"
  next_id :: int

text \<open>
  What \<^verbatim>\<open>json.load\<close> can return. Every JSON object is read at the declared type
  \<^verbatim>\<open>Transaction\<close> (a number in the place of the amount at its float value); objects with
  other keys or value types are outside the model. Writing a list of transactions with
  \<^verbatim>\<open>json.dump\<close> and reading it with \<^verbatim>\<open>json.load\<close> gives the list back: a file is
  modelled by the document it holds, not by its text.
\<close>

datatype json =
  JNull | JBool bool | JInt int | JFloat pyfloat | JStr string | JList "json list" | JDict transaction

text \<open>A file holds either text that \<^verbatim>\<open>json.load\<close> rejects or a JSON document.\<close>

datatype file_content = Corrupt | Doc json

record filesystem =
  contents :: "string \<Rightarrow> file_content option"
  writable :: "string \<Rightarrow> bool"

datatype import_error = JSONDecodeError | ValueError string

text \<open>
  The messages printed on the console, one constructor per \<^verbatim>\<open>console.print\<close>, with the
  values that the message is formatted from.
\<close>

datatype report =
  DataLoaded string
| FreshLedger
| LoadCorrupt
| SaveFailed
| Added string int
| Deleted int
| NotFound int
| Exported string
| ExportFailed
| Imported string
| ImportFileNotFound string
| ImportInvalid import_error
| AmountRejected

datatype init_error = TypeError

section \<open>The ledger store\<close>

text \<open>\<^verbatim>\<open>max(iterable, default=d)\<close>.\<close>

fun py_max :: "int list \<Rightarrow> int \<Rightarrow> int" where
  "py_max [] d = d"
| "py_max (x # xs) d = fold max xs x"

definition is_list :: "json \<Rightarrow> bool" where
  "is_list j = (case j of JList _ \<Rightarrow> True | _ \<Rightarrow> False)"

definition is_dict :: "json \<Rightarrow> bool" where
  "is_dict j = (case j of JDict _ \<Rightarrow> True | _ \<Rightarrow> False)"

definition elements :: "json \<Rightarrow> json list" where
  "elements j = (case j of JList ds \<Rightarrow> ds | _ \<Rightarrow> [])"

text \<open>A list of objects seen as \<^verbatim>\<open>List[Transaction]\<close>, and \<^verbatim>\<open>json.dump\<close> of such a list.\<close>

fun the_dicts :: "json list \<Rightarrow> transaction list" where
  "the_dicts [] = []"
| "the_dicts (JDict t # js) = t # the_dicts js"
| "the_dicts (_ # js) = the_dicts js"

definition payload :: "json \<Rightarrow> transaction list" where
  "payload j = the_dicts (elements j)"

definition dump :: "transaction list \<Rightarrow> json" where
  "dump txs = JList (map JDict txs)"

text \<open>\<^verbatim>\<open>open(path, "w")\<close> followed by \<^verbatim>\<open>json.dump\<close>; \<open>None\<close> is the \<^verbatim>\<open>IOError\<close>.\<close>

definition write_file :: "string \<Rightarrow> json \<Rightarrow> filesystem \<Rightarrow> filesystem option" where
  "write_file path j fs =
     (if writable fs path then Some (fs\<lparr>contents := (contents fs)(path := Some (Doc j))\<rparr>) else None)"

text \<open>
  \<^verbatim>\<open>__init__\<close> with \<^verbatim>\<open>_load_transactions\<close>. The loader does not validate what it
  reads: on a document that is not a list of objects the generator \<^verbatim>\<open>t["id"] for t in ...\<close>
  raises and no ledger is constructed. (The empty JSON string is the one such document on
  which the generator has nothing to raise on; Python then keeps a string in the place of the
  list, a state outside the declared type of \<^verbatim>\<open>transactions\<close> and outside this model.)
\<close>

definition init :: "string \<Rightarrow> filesystem \<Rightarrow> init_error + (ledger \<times> report list)" where
  "init path fs =
     (case contents fs path of
        None \<Rightarrow> Inr (\<lparr>data_file = path, transactions = [], next_id = py_max [] 0 + 1\<rparr>, [FreshLedger])
      | Some Corrupt \<Rightarrow>
          Inr (\<lparr>data_file = path, transactions = [], next_id = py_max [] 0 + 1\<rparr>, [LoadCorrupt])
      | Some (Doc j) \<Rightarrow>
          if is_list j \<and> list_all is_dict (elements j)
          then Inr (\<lparr>data_file = path, transactions = payload j,
                     next_id = py_max (map tx_id (payload j)) 0 + 1\<rparr>, [DataLoaded path])
          else Inl TypeError)"

definition save_transactions :: "ledger \<Rightarrow> filesystem \<Rightarrow> filesystem \<times> report list" where
  "save_transactions l fs =
     (case write_file (data_file l) (dump (transactions l)) fs of
        Some fs' \<Rightarrow> (fs', [])
      | None \<Rightarrow> (fs, [SaveFailed]))"

text \<open>\<open>now\<close> is the formatted value of \<^verbatim>\<open>datetime.now()\<close> at the call.\<close>

definition add_transaction ::
  "string \<Rightarrow> string \<Rightarrow> string \<Rightarrow> pyfloat \<Rightarrow> string \<Rightarrow> ledger \<Rightarrow> filesystem
     \<Rightarrow> ledger \<times> filesystem \<times> report list" where
  "add_transaction now ty cat amt desc l fs =
     (let new_transaction = \<lparr>tx_id = next_id l, date = now, tx_type = ty, category = cat,
                              amount = round2 amt, description = desc\<rparr>;
          l1 = l\<lparr>transactions := transactions l @ [new_transaction]\<rparr>;
          l2 = l1\<lparr>next_id := next_id l1 + 1\<rparr>;
          (fs', out) = save_transactions l2 fs
      in (l2, fs', out @ [Added ty (tx_id new_transaction)]))"

definition delete_transaction ::
  "int \<Rightarrow> ledger \<Rightarrow> filesystem \<Rightarrow> bool \<times> ledger \<times> filesystem \<times> report list" where
  "delete_transaction i l fs =
     (let initial_count = length (transactions l);
          l' = l\<lparr>transactions := filter (\<lambda>t. tx_id t \<noteq> i) (transactions l)\<rparr>
      in if length (transactions l') < initial_count
         then (let (fs', out) = save_transactions l' fs in (True, l', fs', out @ [Deleted i]))
         else (False, l', fs, [NotFound i]))"

fun balance_loop :: "transaction list \<Rightarrow> pyfloat \<Rightarrow> pyfloat" where
  "balance_loop [] balance = balance"
| "balance_loop (tx # txs) balance =
     balance_loop txs
       (if tx_type tx = ''income'' then fadd balance (amount tx)
        else if tx_type tx = ''expense'' then fsub balance (amount tx)
        else balance)"

definition calculate_balance :: "ledger \<Rightarrow> pyfloat" where
  "calculate_balance l = round2 (balance_loop (transactions l) (Fin 0))"

record summary =
  income :: pyfloat
  expense :: pyfloat

fun summary_loop :: "transaction list \<Rightarrow> summary \<Rightarrow> summary" where
  "summary_loop [] s = s"
| "summary_loop (tx # txs) s =
     summary_loop txs
       (if tx_type tx = ''income'' then s\<lparr>income := fadd (income s) (amount tx)\<rparr>
        else if tx_type tx = ''expense'' then s\<lparr>expense := fadd (expense s) (amount tx)\<rparr>
        else s)"

definition generate_summary :: "ledger \<Rightarrow> summary" where
  "generate_summary l =
     (let s = summary_loop (transactions l) \<lparr>income = Fin 0, expense = Fin 0\<rparr>;
          s1 = s\<lparr>income := round2 (income s)\<rparr>
      in s1\<lparr>expense := round2 (expense s1)\<rparr>)"

definition export_data :: "string \<Rightarrow> ledger \<Rightarrow> filesystem \<Rightarrow> filesystem \<times> report list" where
  "export_data filename l fs =
     (case write_file filename (dump (transactions l)) fs of
        Some fs' \<Rightarrow> (fs', [Exported filename])
      | None \<Rightarrow> (fs, [ExportFailed]))"

definition import_data :: "string \<Rightarrow> ledger \<Rightarrow> filesystem \<Rightarrow> ledger \<times> filesystem \<times> report list" where
  "import_data filename l fs =
     (case contents fs filename of
        None \<Rightarrow> (l, fs, [ImportFileNotFound filename])
      | Some Corrupt \<Rightarrow> (l, fs, [ImportInvalid JSONDecodeError])
      | Some (Doc imported_data) \<Rightarrow>
          if \<not> is_list imported_data \<or> \<not> list_all is_dict (elements imported_data)
          then (l, fs, [ImportInvalid (ValueError ''Imported file format is incorrect.'')])
          else
            (let l1 = l\<lparr>transactions := payload imported_data\<rparr>;
                 l2 = l1\<lparr>next_id := py_max (map tx_id (transactions l1)) 0 + 1\<rparr>;
                 (fs', out) = save_transactions l2 fs
             in (l2, fs', out @ [Imported filename])))"

section \<open>The command handlers\<close>

text \<open>\<^verbatim>\<open>a < b\<close> on floats.\<close>

fun flt :: "pyfloat \<Rightarrow> pyfloat \<Rightarrow> bool" where
  "flt NaN _ = False"
| "flt _ NaN = False"
| "flt (Fin a) (Fin b) = (a < b)"
| "flt NInf NInf = False"
| "flt NInf _ = True"
| "flt PInf _ = False"
| "flt _ PInf = True"
| "flt _ NInf = False"

text \<open>
  \<^verbatim>\<open>handle_add\<close>, with the answers to its four prompts as arguments. The prompt for the
  type offers the two choices \<^verbatim>\<open>income\<close> and \<^verbatim>\<open>expense\<close>.
\<close>

definition handle_add ::
  "string \<Rightarrow> string \<Rightarrow> string \<Rightarrow> pyfloat \<Rightarrow> string \<Rightarrow> ledger \<Rightarrow> filesystem
     \<Rightarrow> ledger \<times> filesystem \<times> report list" where
  "handle_add now ty cat amt desc l fs =
     (if fle amt (Fin 0) then (l, fs, [AmountRejected])
      else add_transaction now ty cat amt desc l fs)"






section \<open>Runs of the ledger\<close>

text \<open>The ledger states a process can be in: constructed from a data file, then operated on.\<close>

inductive reachable :: "ledger \<Rightarrow> filesystem \<Rightarrow> bool" where
  r_init: "init path fs = Inr (l, out) \<Longrightarrow> reachable l fs"
| r_add: "reachable l fs \<Longrightarrow> add_transaction now ty cat amt desc l fs = (l', fs', out)
            \<Longrightarrow> reachable l' fs'"
| r_delete: "reachable l fs \<Longrightarrow> delete_transaction i l fs = (b, l', fs', out)
            \<Longrightarrow> reachable l' fs'"
| r_export: "reachable l fs \<Longrightarrow> export_data filename l fs = (fs', out) \<Longrightarrow> reachable l fs'"
| r_import: "reachable l fs \<Longrightarrow> import_data filename l fs = (l', fs', out)
            \<Longrightarrow> reachable l' fs'"

text \<open>The arguments of one \<^verbatim>\<open>add_transaction\<close> call: time, type, category, amount, description.\<close>

type_synonym add_args = "string \<times> string \<times> string \<times> pyfloat \<times> string"

fun add_many :: "add_args list \<Rightarrow> ledger \<Rightarrow> filesystem \<Rightarrow> ledger \<times> filesystem" where
  "add_many [] l fs = (l, fs)"
| "add_many ((now, ty, cat, amt, desc) # cs) l fs =
     (case add_transaction now ty cat amt desc l fs of (l', fs', out) \<Rightarrow> add_many cs l' fs')"

text \<open>
  A run of calls; \<open>Reload\<close> ends the process and constructs the ledger again from its data
  file. The result lists the ids that the adds assigned, in call order. A construction that
  raises ends the run.
\<close>

datatype call = Add add_args | Delete int | Import string | Reload

fun run :: "call list \<Rightarrow> ledger \<Rightarrow> filesystem \<Rightarrow> int list \<times> ledger \<times> filesystem" where
  "run [] l fs = ([], l, fs)"
| "run (Add (now, ty, cat, amt, desc) # cs) l fs =
     (case add_transaction now ty cat amt desc l fs of
        (l', fs', out) \<Rightarrow> (case run cs l' fs' of (ids, l'', fs'') \<Rightarrow> (next_id l # ids, l'', fs'')))"
| "run (Delete i # cs) l fs =
     (case delete_transaction i l fs of (b, l', fs', out) \<Rightarrow> run cs l' fs')"
| "run (Import filename # cs) l fs =
     (case import_data filename l fs of (l', fs', out) \<Rightarrow> run cs l' fs')"
| "run (Reload # cs) l fs =
     (case init (data_file l) fs of Inr (l', out) \<Rightarrow> run cs l' fs | Inl e \<Rightarrow> ([], l, fs))"


text \<open>Every stored id is below the counter.\<close>

definition ids_below :: "ledger \<Rightarrow> bool" where
  "ids_below l = (\<forall>t\<in>set (transactions l). tx_id t < next_id l)"

section \<open>Notions of the specification\<close>

text \<open>A payload that is "a sequence of record-like structures".\<close>

definition sequence_of_records :: "json \<Rightarrow> bool" where
  "sequence_of_records j = (\<exists>txs. j = JList (map JDict txs))"

text \<open>A positive amount, as opposed to a non-positive one (\<^verbatim>\<open>amount <= 0\<close>) or a NaN.\<close>

definition positive :: "pyfloat \<Rightarrow> bool" where
  "positive a = flt (Fin 0) a"

text \<open>
  Rounding to 2 decimal places: \<open>k / 100\<close> is the multiple of \<open>1 / 100\<close> nearest to \<open>x\<close>, the
  one with even \<open>k\<close> when two are equally near; the rounded amount is the float nearest to
  that decimal. Infinities and NaN have no decimals to round.
\<close>

definition nearest_cent :: "rat \<Rightarrow> int \<Rightarrow> bool" where
  "nearest_cent x k \<longleftrightarrow>
     \<bar>x * 100 - of_int k\<bar> \<le> 1 / 2 \<and> (\<bar>x * 100 - of_int k\<bar> = 1 / 2 \<longrightarrow> even k)"

fun rounded_to_cents :: "pyfloat \<Rightarrow> pyfloat \<Rightarrow> bool" where
  "rounded_to_cents (Fin x) a = (\<exists>k. nearest_cent x k \<and> a = rnd (of_int k / 100))"
| "rounded_to_cents PInf a = (a = PInf)"
| "rounded_to_cents NInf a = (a = NInf)"
| "rounded_to_cents NaN a = (a = NaN)"




section \<open>Two-decimal amounts\<close>

text \<open>
  A float within \<open>1 / 2 ^ 32\<close> of the decimal \<open>k / 100\<close> and of magnitude at most \<open>2 ^ 20\<close>;
  and a float of that magnitude that \<^verbatim>\<open>round(x, 2)\<close> leaves as it is.
\<close>

definition near_cents :: "rat \<Rightarrow> int \<Rightarrow> bool" where
  "near_cents x k \<longleftrightarrow> \<bar>x - of_int k / 100\<bar> \<le> 1 / 2 ^ 32 \<and> \<bar>x\<bar> \<le> 2 ^ 20"

fun two_decimal :: "pyfloat \<Rightarrow> bool" where
  "two_decimal (Fin a) = (\<bar>a\<bar> \<le> 2 ^ 20 \<and> round2 (Fin a) = Fin a)"
| "two_decimal PInf = False"
| "two_decimal NInf = False"
| "two_decimal NaN = False"

fun fval :: "pyfloat \<Rightarrow> rat" where
  "fval (Fin a) = a"
| "fval PInf = 0"
| "fval NInf = 0"
| "fval NaN = 0"

definition cents :: "pyfloat \<Rightarrow> int" where
  "cents a = round_half_even (fval a * 100)"

text \<open>
  The ledger states reached from a ledger constructed empty by adds of positive amounts of
  at most 1000000 and by deletes.
\<close>

inductive add_delete_reachable :: "ledger \<Rightarrow> filesystem \<Rightarrow> bool" where
  ad_start: "init path fs = Inr (l, out) \<Longrightarrow> transactions l = [] \<Longrightarrow> add_delete_reachable l fs"
| ad_add: "add_delete_reachable l fs \<Longrightarrow> positive amt \<Longrightarrow> fle amt (Fin 1000000)
            \<Longrightarrow> add_transaction now ty cat amt desc l fs = (l', fs', out)
            \<Longrightarrow> add_delete_reachable l' fs'"
| ad_delete: "add_delete_reachable l fs \<Longrightarrow> delete_transaction i l fs = (b, l', fs', out)
            \<Longrightarrow> add_delete_reachable l' fs'"

section \<open>Example data\<close>

definition salary :: transaction where
  "salary = \<lparr>tx_id = 1, date = ''2024-03-01 09:00:00'', tx_type = ''income'',
             category = ''Salary'', amount = Fin 1000, description = ''March pay''\<rparr>"

definition groceries :: transaction where
  "groceries = \<lparr>tx_id = 2, date = ''2024-03-02 18:30:00'', tx_type = ''expense'',
                category = ''Groceries'', amount = Fin (91 / 2), description = ''Weekly shop''\<rparr>"

definition ex_ledger :: ledger where
  "ex_ledger = \<lparr>data_file = ''ledger_data.json'', transactions = [salary, groceries], next_id = 3\<rparr>"

text \<open>A file system without files where every path can be written.\<close>

definition ex_fs :: filesystem where
  "ex_fs = \<lparr>contents = (\<lambda>p. None), writable = (\<lambda>p. True)\<rparr>"

text \<open>
  A file system where \<^verbatim>\<open>export.json\<close> exists, holds an empty list and cannot be written.
\<close>

definition stale_fs :: filesystem where
  "stale_fs = \<lparr>contents = (\<lambda>p. if p = ''export.json'' then Some (Doc (dump [])) else None),
                writable = (\<lambda>p. p \<noteq> ''export.json'')\<rparr>"


text \<open>The same with the example ledger saved in its data file.\<close>

definition ex_disk :: filesystem where
  "ex_disk = ex_fs\<lparr>contents := (contents ex_fs)(''ledger_data.json'' := Some (Doc (dump [salary, groceries])))\<rparr>"

text \<open>
  A fresh ledger after an income of \<^verbatim>\<open>0.3\<close> and an expense of \<^verbatim>\<open>0.1\<close>;
  \<open>rnd (3 / 10)\<close> is the float that Python reads from \<^verbatim>\<open>0.3\<close>.
\<close>

definition tenths_run :: "ledger \<times> filesystem" where
  "tenths_run =
     add_many [(''2024-03-01 09:00:00'', ''income'', ''Gift'', rnd (3 / 10), ''Coins''),
               (''2024-03-02 18:30:00'', ''expense'', ''Sweets'', rnd (1 / 10), ''Gum'')]
       \<lparr>data_file = ''ledger_data.json'', transactions = [], next_id = 1\<rparr> ex_fs"

section \<open>Deleting\<close>

lemma delete_keeps_others:
  "fst (snd (delete_transaction i l fs)) = l\<lparr>transactions := filter (\<lambda>t. tx_id t \<noteq> i) (transactions l)\<rparr>"
  by (simp add: delete_transaction_def Let_def split: prod.splits)

lemma filter_length_less_iff:
  "length (filter P xs) < length xs \<longleftrightarrow> (\<exists>x\<in>set xs. \<not> P x)"
proof (induction xs)
  case Nil
  show ?case by simp
next
  case (Cons x xs)
  have "length (filter P xs) \<le> length xs" by simp
  with Cons show ?case by auto
qed

text \<open>
  C4. Deleting an id that no transaction carries leaves the transaction sequence and
  \<open>next_id\<close> (the whole ledger object, and the files) unchanged, returns \<open>False\<close> and prints
  the not-found message.
\<close>

theorem delete_absent_id:
  assumes "i \<notin> tx_id ` set (transactions l)"
  shows "delete_transaction i l fs = (False, l, fs, [NotFound i])"
proof -
  have keep: "filter (\<lambda>t. tx_id t \<noteq> i) (transactions l) = transactions l"
    using assms by (auto simp: filter_id_conv)
  show ?thesis
    by (simp add: delete_transaction_def Let_def keep)
qed

theorem delete_absent_id_witness:
  "7 \<notin> tx_id ` set (transactions ex_ledger)
   \<and> delete_transaction 7 ex_ledger ex_fs = (False, ex_ledger, ex_fs, [NotFound 7])"
  using delete_absent_id [of 7 ex_ledger ex_fs]
  by (simp add: ex_ledger_def salary_def groceries_def)

text \<open>
  C9. \<^verbatim>\<open>delete_transaction\<close> keeps exactly the transactions with another id, in their
  order, so every transaction with the given id goes, duplicates included; it returns \<open>True\<close>
  exactly when the ledger held a transaction with that id. \<open>next_id\<close> stays as it was.
\<close>

theorem delete_removes_every_match:
  assumes "delete_transaction i l fs = (b, l', fs', out)"
  shows "transactions l' = filter (\<lambda>t. tx_id t \<noteq> i) (transactions l)
         \<and> (\<forall>t\<in>set (transactions l'). tx_id t \<noteq> i)
         \<and> (b \<longleftrightarrow> (\<exists>t\<in>set (transactions l). tx_id t = i))
         \<and> next_id l' = next_id l"
proof -
  have l': "l' = l\<lparr>transactions := filter (\<lambda>t. tx_id t \<noteq> i) (transactions l)\<rparr>"
    using delete_keeps_others [of i l fs] assms by simp
  have b: "b \<longleftrightarrow> length (filter (\<lambda>t. tx_id t \<noteq> i) (transactions l)) < length (transactions l)"
    using assms by (auto simp: delete_transaction_def Let_def split: if_splits prod.splits)
  show ?thesis
    using l' b by (auto simp: filter_length_less_iff)
qed

theorem delete_removes_every_match_witness:
  "delete_transaction 2 (ex_ledger\<lparr>transactions := [groceries, salary, groceries]\<rparr>) ex_fs
     = (True, ex_ledger\<lparr>transactions := [salary]\<rparr>,
        ex_fs\<lparr>contents := (contents ex_fs)(''ledger_data.json'' := Some (Doc (dump [salary])))\<rparr>,
        [Deleted 2])
   \<and> transactions (ex_ledger\<lparr>transactions := [salary]\<rparr>)
       = filter (\<lambda>t. tx_id t \<noteq> 2) (transactions (ex_ledger\<lparr>transactions := [groceries, salary, groceries]\<rparr>))"
proof -
  have run: "delete_transaction 2 (ex_ledger\<lparr>transactions := [groceries, salary, groceries]\<rparr>) ex_fs
     = (True, ex_ledger\<lparr>transactions := [salary]\<rparr>,
        ex_fs\<lparr>contents := (contents ex_fs)(''ledger_data.json'' := Some (Doc (dump [salary])))\<rparr>,
        [Deleted 2])"
    by (simp add: delete_transaction_def save_transactions_def write_file_def Let_def
        ex_ledger_def ex_fs_def salary_def groceries_def)
  from delete_removes_every_match [OF run] run show ?thesis by blast
qed

section \<open>Export and import\<close>

lemma the_dicts_dump: "the_dicts (map JDict txs) = txs"
  by (induction txs) simp_all

lemma payload_dump: "payload (dump txs) = txs"
  by (simp add: payload_def dump_def elements_def the_dicts_dump)

lemma dump_accepted: "is_list (dump txs) \<and> list_all is_dict (elements (dump txs))"
  by (simp add: dump_def is_list_def elements_def list_all_iff is_dict_def)

lemma accepted_iff_sequence_of_records:
  "is_list j \<and> list_all is_dict (elements j) \<longleftrightarrow> sequence_of_records j"
proof
  assume ok: "is_list j \<and> list_all is_dict (elements j)"
  then obtain ds where j: "j = JList ds"
    by (cases j) (simp_all add: is_list_def)
  with ok have "list_all is_dict ds"
    by (simp add: elements_def)
  then have "ds = map JDict (the_dicts ds)"
  proof (induction ds)
    case Nil
    show ?case by simp
  next
    case (Cons d ds)
    then show ?case by (cases d) (simp_all add: is_dict_def)
  qed
  with j show "sequence_of_records j"
    unfolding sequence_of_records_def by blast
next
  assume "sequence_of_records j"
  then obtain txs where "j = dump txs"
    unfolding sequence_of_records_def dump_def by blast
  then show "is_list j \<and> list_all is_dict (elements j)"
    using dump_accepted by simp
qed

text \<open>
  C6. When the import source is missing, is not decodable, or decodes to something that is
  not a sequence of records, \<^verbatim>\<open>import_data\<close> leaves the ledger (transaction sequence and
  \<open>next_id\<close>) and the files as they were and prints the message of that cause.
\<close>

theorem import_failure_keeps_state:
  "(contents fs filename = None
      \<longrightarrow> import_data filename l fs = (l, fs, [ImportFileNotFound filename]))
   \<and> (contents fs filename = Some Corrupt
      \<longrightarrow> import_data filename l fs = (l, fs, [ImportInvalid JSONDecodeError]))
   \<and> (contents fs filename = Some (Doc j) \<and> \<not> sequence_of_records j
      \<longrightarrow> import_data filename l fs
            = (l, fs, [ImportInvalid (ValueError ''Imported file format is incorrect.'')]))"
  using accepted_iff_sequence_of_records [of j]
  by (auto simp: import_data_def)

theorem import_failure_keeps_state_witness:
  "import_data ''none.json'' ex_ledger ex_fs = (ex_ledger, ex_fs, [ImportFileNotFound ''none.json''])
   \<and> import_data ''bad.json'' ex_ledger (ex_fs\<lparr>contents := (contents ex_fs)(''bad.json'' := Some Corrupt)\<rparr>)
       = (ex_ledger, ex_fs\<lparr>contents := (contents ex_fs)(''bad.json'' := Some Corrupt)\<rparr>,
          [ImportInvalid JSONDecodeError])
   \<and> import_data ''odd.json'' ex_ledger
         (ex_fs\<lparr>contents := (contents ex_fs)(''odd.json'' := Some (Doc (JList [JDict salary, JInt 5])))\<rparr>)
       = (ex_ledger,
          ex_fs\<lparr>contents := (contents ex_fs)(''odd.json'' := Some (Doc (JList [JDict salary, JInt 5])))\<rparr>,
          [ImportInvalid (ValueError ''Imported file format is incorrect.'')])"
proof -
  have odd: "\<not> sequence_of_records (JList [JDict salary, JInt 5])"
    by (simp add: accepted_iff_sequence_of_records [symmetric] is_list_def elements_def is_dict_def)
  show ?thesis
    using import_failure_keeps_state [of ex_fs "''none.json''" ex_ledger JNull]
      import_failure_keeps_state
        [of "ex_fs\<lparr>contents := (contents ex_fs)(''bad.json'' := Some Corrupt)\<rparr>" "''bad.json''" ex_ledger JNull]
      import_failure_keeps_state
        [of "ex_fs\<lparr>contents := (contents ex_fs)(''odd.json'' := Some (Doc (JList [JDict salary, JInt 5])))\<rparr>"
            "''odd.json''" ex_ledger "JList [JDict salary, JInt 5]"]
      odd
    by (simp add: ex_fs_def)
qed

text \<open>
  C5, as the code has it. The export cannot write \<^verbatim>\<open>export.json\<close>, prints its error
  message and leaves the old file; the import that follows reads that file, and the ledger of
  two transactions becomes empty.
\<close>

theorem failed_export_then_import_replaces_ledger:
  "export_data ''export.json'' ex_ledger stale_fs = (stale_fs, [ExportFailed])
   \<and> transactions ex_ledger = [salary, groceries]
   \<and> transactions (fst (import_data ''export.json'' ex_ledger
                           (fst (export_data ''export.json'' ex_ledger stale_fs)))) = []"
  by (simp add: export_data_def write_file_def stale_fs_def import_data_def dump_def is_list_def
      elements_def payload_def save_transactions_def ex_ledger_def Let_def)

text \<open>
  C5, amended. When the export to \<open>filename\<close> can write its file, the file then holds the
  exported sequence, and an import of \<open>filename\<close> right after it (into the exporting ledger
  or any other) succeeds and stores that sequence: the same transactions, field by field,
  in the same order.
\<close>

theorem export_import_roundtrip:
  assumes "writable fs filename"
    and "export_data filename l fs = (fs1, out1)"
    and "import_data filename l0 fs1 = (l2, fs2, out2)"
  shows "out1 = [Exported filename]
         \<and> contents fs1 filename = Some (Doc (dump (transactions l)))
         \<and> transactions l2 = transactions l
         \<and> last out2 = Imported filename"
proof -
  have fs1: "contents fs1 filename = Some (Doc (dump (transactions l)))"
    and out1: "out1 = [Exported filename]"
    using assms(1,2) by (auto simp: export_data_def write_file_def)
  show ?thesis
    using assms(3) dump_accepted [of "transactions l"] out1
    by (auto simp: import_data_def fs1 payload_dump Let_def split: prod.splits)
qed

theorem export_import_roundtrip_witness:
  "writable ex_fs ''export.json''
   \<and> transactions (fst (import_data ''export.json'' (ex_ledger\<lparr>transactions := []\<rparr>)
                          (fst (export_data ''export.json'' ex_ledger ex_fs))))
       = [salary, groceries]
   \<and> transactions (fst (import_data ''export.json'' ex_ledger
                          (fst (export_data ''export.json'' ex_ledger ex_fs))))
       = [salary, groceries]"
  using export_import_roundtrip
    [of ex_fs "''export.json''" ex_ledger
        "fst (export_data ''export.json'' ex_ledger ex_fs)"
        "snd (export_data ''export.json'' ex_ledger ex_fs)"
        "ex_ledger\<lparr>transactions := []\<rparr>"
        "fst (import_data ''export.json'' (ex_ledger\<lparr>transactions := []\<rparr>)
               (fst (export_data ''export.json'' ex_ledger ex_fs)))"
        "fst (snd (import_data ''export.json'' (ex_ledger\<lparr>transactions := []\<rparr>)
               (fst (export_data ''export.json'' ex_ledger ex_fs))))"
        "snd (snd (import_data ''export.json'' (ex_ledger\<lparr>transactions := []\<rparr>)
               (fst (export_data ''export.json'' ex_ledger ex_fs))))"]
    export_import_roundtrip
    [of ex_fs "''export.json''" ex_ledger
        "fst (export_data ''export.json'' ex_ledger ex_fs)"
        "snd (export_data ''export.json'' ex_ledger ex_fs)"
        ex_ledger
        "fst (import_data ''export.json'' ex_ledger (fst (export_data ''export.json'' ex_ledger ex_fs)))"
        "fst (snd (import_data ''export.json'' ex_ledger (fst (export_data ''export.json'' ex_ledger ex_fs))))"
        "snd (snd (import_data ''export.json'' ex_ledger (fst (export_data ''export.json'' ex_ledger ex_fs))))"]
  by (simp add: ex_fs_def ex_ledger_def)

section \<open>Adding\<close>

lemma add_transaction_ledger:
  "fst (add_transaction now ty cat amt desc l fs) =
     l\<lparr>transactions := transactions l @
          [\<lparr>tx_id = next_id l, date = now, tx_type = ty, category = cat,
            amount = round2 amt, description = desc\<rparr>],
       next_id := next_id l + 1\<rparr>"
  by (simp add: add_transaction_def Let_def split: prod.splits)

lemma positive_not_le_zero: "positive a \<Longrightarrow> \<not> fle a (Fin 0)"
  by (cases a) (simp_all add: positive_def)

section \<open>Balance and summary\<close>

lemma balance_loop_filter:
  "balance_loop (filter (\<lambda>t. tx_type t = ''income'' \<or> tx_type t = ''expense'') txs) b
     = balance_loop txs b"
  by (induction txs arbitrary: b) simp_all

lemma summary_loop_filter:
  "summary_loop (filter (\<lambda>t. tx_type t = ''income'' \<or> tx_type t = ''expense'') txs) s
     = summary_loop txs s"
  by (induction txs arbitrary: s) simp_all

text \<open>
  C10. Only transactions whose type is \<^verbatim>\<open>"income"\<close> or \<^verbatim>\<open>"expense"\<close> count: the
  balance and both totals of a ledger are those of the ledger without its other transactions.
\<close>

theorem other_types_do_not_count:
  "calculate_balance (l\<lparr>transactions :=
       filter (\<lambda>t. tx_type t = ''income'' \<or> tx_type t = ''expense'') (transactions l)\<rparr>)
     = calculate_balance l
   \<and> generate_summary (l\<lparr>transactions :=
       filter (\<lambda>t. tx_type t = ''income'' \<or> tx_type t = ''expense'') (transactions l)\<rparr>)
     = generate_summary l"
  by (simp add: calculate_balance_def generate_summary_def balance_loop_filter summary_loop_filter)

theorem other_types_do_not_count_witness:
  "calculate_balance (ex_ledger\<lparr>transactions := [salary, groceries]\<rparr>)
     = calculate_balance (ex_ledger\<lparr>transactions := [salary, groceries\<lparr>tx_type := ''Expense''\<rparr>, groceries]\<rparr>)
   \<and> generate_summary (ex_ledger\<lparr>transactions := [salary, groceries]\<rparr>)
     = generate_summary (ex_ledger\<lparr>transactions := [salary, groceries\<lparr>tx_type := ''Expense''\<rparr>, groceries]\<rparr>)"
  using other_types_do_not_count
    [of "ex_ledger\<lparr>transactions := [salary, groceries\<lparr>tx_type := ''Expense''\<rparr>, groceries]\<rparr>"]
  by (simp add: salary_def groceries_def)

section \<open>Viewing by category\<close>






section \<open>Identifiers\<close>

lemma py_max_ge: "x \<in> set xs \<Longrightarrow> x \<le> py_max xs d"
proof (cases xs)
  case Nil
  then show "x \<in> set xs \<Longrightarrow> x \<le> py_max xs d" by simp
next
  case (Cons y ys)
  have "py_max xs d = Max (set (y # ys))"
    unfolding Cons by (simp only: py_max.simps Max.set_eq_fold)
  then show "x \<in> set xs \<Longrightarrow> x \<le> py_max xs d"
    using Cons by simp
qed

lemma ids_below_recomputed:
  "ids_below (l\<lparr>transactions := txs, next_id := py_max (map tx_id txs) 0 + 1\<rparr>)"
  unfolding ids_below_def
proof
  fix t
  assume "t \<in> set (transactions (l\<lparr>transactions := txs, next_id := py_max (map tx_id txs) 0 + 1\<rparr>))"
  then have "tx_id t \<in> set (map tx_id txs)" by simp
  from py_max_ge [OF this, of 0]
  show "tx_id t < next_id (l\<lparr>transactions := txs, next_id := py_max (map tx_id txs) 0 + 1\<rparr>)"
    by simp
qed

lemma init_ids_below: "init path fs = Inr (l, out) \<Longrightarrow> ids_below l"
  using ids_below_recomputed [where l = "\<lparr>data_file = path, transactions = [], next_id = 0\<rparr>"]
  by (auto simp: init_def ids_below_def split: option.splits file_content.splits if_splits)

lemma add_ids_below:
  "ids_below l \<Longrightarrow> add_transaction now ty cat amt desc l fs = (l', fs', out) \<Longrightarrow> ids_below l'"
  using add_transaction_ledger [of now ty cat amt desc l fs]
  by (fastforce simp: ids_below_def)

lemma delete_ids_below:
  "ids_below l \<Longrightarrow> delete_transaction i l fs = (b, l', fs', out) \<Longrightarrow> ids_below l'"
  using delete_keeps_others [of i l fs]
  by (auto simp: ids_below_def)

lemma import_ids_below:
  "ids_below l \<Longrightarrow> import_data filename l fs = (l', fs', out) \<Longrightarrow> ids_below l'"
  using ids_below_recomputed [where l = l]
  by (auto simp: import_data_def Let_def split: option.splits file_content.splits if_splits prod.splits)

lemma reachable_ids_below: "reachable l fs \<Longrightarrow> ids_below l"
proof (induction rule: reachable.induct)
  case (r_init path fs l out)
  then show ?case by (rule init_ids_below)
next
  case (r_add l fs now ty cat amt desc l' fs' out)
  then show ?case by (blast intro: add_ids_below)
next
  case (r_delete l fs i b l' fs' out)
  then show ?case by (blast intro: delete_ids_below)
next
  case (r_export l fs filename fs' out)
  then show ?case by simp
next
  case (r_import l fs filename l' fs' out)
  then show ?case by (blast intro: import_ids_below)
qed

lemma add_many_appends:
  "add_many cs l fs = (l', fs') \<Longrightarrow>
     \<exists>news. transactions l' = transactions l @ news \<and> length news = length cs
       \<and> sorted_wrt (<) (map tx_id news) \<and> (\<forall>n\<in>set news. next_id l \<le> tx_id n)"
proof (induction cs arbitrary: l fs)
  case Nil
  then show ?case by simp
next
  case (Cons c cs)
  obtain now ty cat amt desc where c: "c = (now, ty, cat, amt, desc)"
    by (cases c) auto
  obtain l1 fs1 out1 where step: "add_transaction now ty cat amt desc l fs = (l1, fs1, out1)"
    by (cases "add_transaction now ty cat amt desc l fs") auto
  with Cons.prems c have rest: "add_many cs l1 fs1 = (l', fs')"
    by simp
  from Cons.IH [OF rest] obtain news where
    news: "transactions l' = transactions l1 @ news" "length news = length cs"
      "sorted_wrt (<) (map tx_id news)" "\<forall>n\<in>set news. next_id l1 \<le> tx_id n"
    by blast
  let ?new = "\<lparr>tx_id = next_id l, date = now, tx_type = ty, category = cat,
               amount = round2 amt, description = desc\<rparr>"
  have l1: "transactions l1 = transactions l @ [?new]" "next_id l1 = next_id l + 1"
    using add_transaction_ledger [of now ty cat amt desc l fs] step by simp_all
  have "transactions l' = transactions l @ (?new # news)"
    using news(1) l1(1) by simp
  moreover have "length (?new # news) = length (c # cs)"
    using news(2) by simp
  moreover have "sorted_wrt (<) (map tx_id (?new # news))"
    using news(3,4) l1(2) by auto
  moreover have "\<forall>n\<in>set (?new # news). next_id l \<le> tx_id n"
    using news(4) l1(2) by auto
  ultimately show ?case by blast
qed

text \<open>
  C2. From a reachable ledger state, a sequence of \<^verbatim>\<open>add_transaction\<close> calls (whatever
  the amounts) appends one transaction per call; the id given by each call differs from the
  id of every transaction present at that call, and the ids given are strictly increasing in
  call order.
\<close>

theorem add_ids_fresh_and_increasing:
  assumes "reachable l fs" and "add_many cs l fs = (l', fs')"
  shows "\<exists>news. transactions l' = transactions l @ news \<and> length news = length cs
           \<and> sorted_wrt (<) (map tx_id news)
           \<and> (\<forall>k<length news. tx_id (news ! k) \<notin> tx_id ` set (transactions l @ take k news))"
proof -
  from add_many_appends [OF assms(2)] obtain news where
    news: "transactions l' = transactions l @ news" "length news = length cs"
      "sorted_wrt (<) (map tx_id news)" "\<forall>n\<in>set news. next_id l \<le> tx_id n"
    by blast
  have below: "\<forall>t\<in>set (transactions l). tx_id t < next_id l"
    using reachable_ids_below [OF assms(1)] by (simp add: ids_below_def)
  have "tx_id (news ! k) \<notin> tx_id ` set (transactions l @ take k news)" if k: "k < length news" for k
  proof
    assume "tx_id (news ! k) \<in> tx_id ` set (transactions l @ take k news)"
    then consider t where "t \<in> set (transactions l)" "tx_id t = tx_id (news ! k)"
      | j where "j < k" "tx_id (news ! j) = tx_id (news ! k)"
      using k by (auto simp: in_set_conv_nth)
    then show False
    proof cases
      case 1
      with below news(4) k show False by (metis nth_mem not_less)
    next
      case 2
      from news(3) have "tx_id (news ! j) < tx_id (news ! k)"
        using 2(1) k by (simp add: sorted_wrt_iff_nth_less)
      with 2(2) show False by simp
    qed
  qed
  with news show ?thesis by blast
qed

lemma ex_ledger_reachable: "reachable ex_ledger ex_disk"
proof (rule r_init)
  show "init ''ledger_data.json'' ex_disk = Inr (ex_ledger, [DataLoaded ''ledger_data.json''])"
    by (simp add: init_def ex_disk_def ex_fs_def ex_ledger_def dump_def is_list_def elements_def
        is_dict_def payload_def salary_def groceries_def)
qed

theorem add_ids_fresh_and_increasing_witness:
  "reachable ex_ledger ex_disk
   \<and> (\<exists>news. transactions (fst (add_many
          [(''2024-03-03 08:00:00'', ''expense'', ''Coffee'', Fin 3, ''Beans''),
           (''2024-03-04 08:00:00'', ''income'', ''Gift'', Fin 20, ''Birthday'')] ex_ledger ex_disk))
        = transactions ex_ledger @ news
      \<and> length news = 2
      \<and> sorted_wrt (<) (map tx_id news)
      \<and> (\<forall>k<length news. tx_id (news ! k) \<notin> tx_id ` set (transactions ex_ledger @ take k news)))"
  using ex_ledger_reachable
    add_ids_fresh_and_increasing [OF ex_ledger_reachable,
      of "[(''2024-03-03 08:00:00'', ''expense'', ''Coffee'', Fin 3, ''Beans''),
           (''2024-03-04 08:00:00'', ''income'', ''Gift'', Fin 20, ''Birthday'')]"
         "fst (add_many
          [(''2024-03-03 08:00:00'', ''expense'', ''Coffee'', Fin 3, ''Beans''),
           (''2024-03-04 08:00:00'', ''income'', ''Gift'', Fin 20, ''Birthday'')] ex_ledger ex_disk)"
         "snd (add_many
          [(''2024-03-03 08:00:00'', ''expense'', ''Coffee'', Fin 3, ''Beans''),
           (''2024-03-04 08:00:00'', ''income'', ''Gift'', Fin 20, ''Birthday'')] ex_ledger ex_disk)"]
  by (simp add: numeral_2_eq_2)





section \<open>Rounding to the nearest float\<close>

lemma round_half_even_error: "\<bar>of_int (round_half_even x) - x\<bar> \<le> 1 / 2"
proof -
  have "of_int \<lfloor>x\<rfloor> \<le> x" "x < of_int \<lfloor>x\<rfloor> + 1"
    by linarith+
  then show ?thesis
    by (auto simp: round_half_even_def Let_def)
qed

lemma round_half_even_unique:
  assumes "\<bar>x - of_int k\<bar> < 1 / 2"
  shows "round_half_even x = k"
proof -
  have "\<bar>(of_int (round_half_even x) :: rat) - of_int k\<bar> < 1"
    using round_half_even_error [of x] assms by linarith
  then have "\<bar>(of_int (round_half_even x - k) :: rat)\<bar> < 1"
    by simp
  then have "\<bar>round_half_even x - k\<bar> < 1"
    by (metis of_int_abs of_int_less_1_iff)
  then show ?thesis by linarith
qed

lemma ilog2_bounds:
  assumes "0 < x"
  shows "2 powi (ilog2 x) \<le> x \<and> x < 2 powi (ilog2 x + 1)"
proof (cases "1 \<le> x")
  case True
  define n where "n = \<lfloor>x\<rfloor>"
  have n: "1 \<le> n" "of_int n \<le> x" "x < of_int n + 1"
    using True unfolding n_def by linarith+
  then have pos: "0 < n" by simp
  have bl: "1 \<le> bitlen n"
    using pos bitlen_eq_zero_iff [of n] bitlen_nonneg [of n] by linarith
  from bitlen_bounds [OF pos]
  have lo: "(2::int) ^ nat (bitlen n - 1) \<le> n" and hi: "n < (2::int) ^ nat (bitlen n)"
    by simp_all
  have il: "ilog2 x = bitlen n - 1"
    using True by (simp add: ilog2_def n_def)
  have "(2::rat) powi (bitlen n - 1) = 2 ^ nat (bitlen n - 1)"
    using bl by (simp add: power_int_def)
  also have "\<dots> \<le> of_int n"
    using lo by (simp only: numeral_power_le_of_int_cancel_iff)
  finally have a: "(2::rat) powi (ilog2 x) \<le> x"
    using n(2) il by simp
  have "n + 1 \<le> (2::int) ^ nat (bitlen n)"
    using hi by simp
  then have "(of_int (n + 1) :: rat) \<le> 2 ^ nat (bitlen n)"
    by (simp only: of_int_le_numeral_power_cancel_iff)
  also have "\<dots> = (2::rat) powi (bitlen n)"
    using bl by (simp add: power_int_def)
  finally have b: "x < (2::rat) powi (ilog2 x + 1)"
    using n(3) il by simp
  from a b show ?thesis ..
next
  case False
  with assms have x1: "x < 1" by simp
  define m where "m = \<lceil>1 / x\<rceil>"
  have inv: "1 < 1 / x"
    using assms x1 by (simp add: field_simps)
  have m: "1 / x \<le> of_int m" "of_int m - 1 < 1 / x"
    unfolding m_def by linarith+
  have m2: "2 \<le> m"
    using inv m(1) by linarith
  then have pos: "0 < m - 1" by simp
  define j where "j = bitlen (m - 1)"
  have j1: "1 \<le> j"
    using pos bitlen_eq_zero_iff [of "m - 1"] bitlen_nonneg [of "m - 1"] unfolding j_def by linarith
  from bitlen_bounds [OF pos]
  have lo: "(2::int) ^ nat (j - 1) \<le> m - 1" and hi: "m - 1 < (2::int) ^ nat j"
    unfolding j_def by simp_all
  have il: "ilog2 x = - j"
    using False by (simp add: ilog2_def m_def j_def)
  have "m \<le> (2::int) ^ nat j"
    using hi by simp
  then have "(of_int m :: rat) \<le> 2 ^ nat j"
    by simp
  then have "1 / x \<le> (2::rat) ^ nat j"
    using m(1) by linarith
  then have "1 \<le> (2::rat) ^ nat j * x"
    using assms by (simp add: field_simps)
  then have "1 / (2::rat) ^ nat j \<le> x"
    by (simp add: field_simps)
  moreover have "(2::rat) powi (- j) = 1 / 2 ^ nat j"
    using j1 by (simp add: power_int_def field_simps)
  ultimately have a: "(2::rat) powi (ilog2 x) \<le> x"
    using il by simp
  have "(2::rat) ^ nat (j - 1) \<le> of_int (m - 1)"
    using lo by (simp only: numeral_power_le_of_int_cancel_iff)
  then have "(2::rat) ^ nat (j - 1) < 1 / x"
    using m(2) by simp
  then have "(2::rat) ^ nat (j - 1) * x < 1"
    using assms by (simp add: field_simps)
  then have "x < 1 / (2::rat) ^ nat (j - 1)"
    by (simp add: field_simps)
  moreover have "(2::rat) powi (- j + 1) = 1 / 2 ^ nat (j - 1)"
  proof (cases "j = 1")
    case True
    then show ?thesis by simp
  next
    case False
    with j1 have "- j + 1 < 0" by simp
    then show ?thesis
      using j1 by (simp add: power_int_def field_simps nat_diff_distrib)
  qed
  ultimately have b: "x < (2::rat) powi (ilog2 x + 1)"
    using il by simp
  from a b show ?thesis ..
qed

lemma fl_error:
  assumes "\<bar>x\<bar> \<le> M" and "1 \<le> M"
  shows "\<bar>fl x - x\<bar> \<le> M / 2 ^ 53"
proof (cases "x = 0")
  case True
  with assms(2) show ?thesis by (simp add: fl_def)
next
  case False
  define e where "e = max (ilog2 \<bar>x\<bar> - 52) (- 1074)"
  define p :: rat where "p = 2 powi e"
  have p0: "0 < p" by (simp add: p_def)
  have flx: "fl x = of_int (round_half_even (x / p)) * p"
    using False by (simp add: fl_def Let_def e_def p_def)
  have "fl x - x = (of_int (round_half_even (x / p)) - x / p) * p"
    using p0 by (simp add: flx field_simps)
  then have "\<bar>fl x - x\<bar> = \<bar>of_int (round_half_even (x / p)) - x / p\<bar> * p"
    using p0 by (simp add: abs_mult)
  also have "\<dots> \<le> (1 / 2) * p"
    using round_half_even_error [of "x / p"] p0 by (intro mult_right_mono) simp_all
  finally have half: "\<bar>fl x - x\<bar> \<le> p / 2" by simp
  have "p \<le> M / 2 ^ 52"
  proof (cases "ilog2 \<bar>x\<bar> - 52 \<le> - 1074")
    case True
    then have "p = 1 / 2 ^ 1074"
      by (simp add: p_def e_def max_def power_int_minus field_simps)
    also have "\<dots> \<le> 1 / 2 ^ 52"
      by (intro divide_left_mono power_increasing) simp_all
    also have "\<dots> \<le> M / 2 ^ 52"
      using assms(2) by (simp add: divide_right_mono)
    finally show ?thesis .
  next
    case False
    then have "p = 2 powi (ilog2 \<bar>x\<bar> + (- 52))"
      by (simp add: p_def e_def max_def)
    also have "\<dots> = 2 powi (ilog2 \<bar>x\<bar>) * 2 powi (- 52)"
      by (rule power_int_add) simp
    also have "\<dots> = 2 powi (ilog2 \<bar>x\<bar>) / 2 ^ 52"
      by (simp add: power_int_minus field_simps)
    also have "\<dots> \<le> \<bar>x\<bar> / 2 ^ 52"
      using ilog2_bounds [of "\<bar>x\<bar>"] \<open>x \<noteq> 0\<close> by (simp add: divide_right_mono)
    also have "\<dots> \<le> M / 2 ^ 52"
      using assms(1) by (simp add: divide_right_mono)
    finally show ?thesis .
  qed
  with half show ?thesis by simp
qed

lemma rnd_finite:
  assumes "\<bar>x\<bar> \<le> M" and "1 \<le> M" and "M \<le> 2 ^ 100"
  shows "rnd x = Fin (fl x)"
proof -
  have "\<bar>fl x - x\<bar> \<le> M / 2 ^ 53"
    using assms(1,2) by (rule fl_error)
  also have "\<dots> \<le> M"
    using assms(2) by (simp add: field_simps)
  finally have "\<bar>fl x\<bar> \<le> 2 * M"
    using assms(1) by linarith
  also have "\<dots> < 2 ^ 1024"
    using assms(3) by simp
  finally have "\<bar>fl x\<bar> < 2 ^ 1024" .
  then show ?thesis
    by (simp add: rnd_def Let_def abs_less_iff not_le)
qed

lemma foldl_fadd_error:
  assumes "1 \<le> M" and "M \<le> 2 ^ 100" and u: "u = M / 2 ^ 53"
  shows "\<bar>b\<bar> + (\<Sum>x\<leftarrow>xs. \<bar>x\<bar>) + of_nat (length xs) * u \<le> M \<Longrightarrow>
     \<exists>b'. foldl fadd (Fin b) (map Fin xs) = Fin b'
        \<and> \<bar>b' - (b + sum_list xs)\<bar> \<le> of_nat (length xs) * u"
proof (induction xs arbitrary: b)
  case Nil
  then show ?case by simp
next
  case (Cons x xs)
  define b1 where "b1 = fl (b + x)"
  define r where "r = (\<Sum>x\<leftarrow>xs. \<bar>x\<bar>) + of_nat (length xs) * u"
  have u0: "0 \<le> u"
    using assms(1) by (simp add: u)
  have "0 \<le> (\<Sum>x\<leftarrow>xs. \<bar>x\<bar>)"
    by (rule sum_list_nonneg) auto
  moreover have "0 \<le> of_nat (length xs) * u"
    using u0 by (intro mult_nonneg_nonneg) simp_all
  ultimately have r0: "0 \<le> r"
    unfolding r_def by linarith
  have len: "of_nat (length (x # xs)) * u = of_nat (length xs) * u + u"
    by (simp add: algebra_simps)
  have prem: "\<bar>b\<bar> + \<bar>x\<bar> + r + u \<le> M"
    using Cons.prems unfolding len r_def by simp
  have bx: "\<bar>b + x\<bar> \<le> M"
    using prem r0 u0 by linarith
  have step: "fadd (Fin b) (Fin x) = Fin b1"
    using rnd_finite [OF bx assms(1,2)] by (simp add: b1_def)
  have err: "\<bar>b1 - (b + x)\<bar> \<le> u"
    unfolding b1_def u using bx assms(1) by (rule fl_error)
  have "\<bar>b1\<bar> + r \<le> M"
    using prem err by linarith
  then have "\<bar>b1\<bar> + (\<Sum>x\<leftarrow>xs. \<bar>x\<bar>) + of_nat (length xs) * u \<le> M"
    unfolding r_def by simp
  from Cons.IH [OF this] obtain b' where
    b': "foldl fadd (Fin b1) (map Fin xs) = Fin b'"
      "\<bar>b' - (b1 + sum_list xs)\<bar> \<le> of_nat (length xs) * u"
    by blast
  have "foldl fadd (Fin b) (map Fin (x # xs)) = Fin b'"
    using step b'(1) by simp
  moreover have "\<bar>b' - (b + sum_list (x # xs))\<bar> \<le> of_nat (length (x # xs)) * u"
    unfolding len using b'(2) err by simp
  ultimately show ?case by blast
qed

lemma sum_near_cents:
  "\<forall>p\<in>set ps. near_cents (fst p) (snd p) \<Longrightarrow>
     \<bar>sum_list (map fst ps) - of_int (sum_list (map snd ps)) / 100\<bar> \<le> of_nat (length ps) * (1 / 2 ^ 32)
     \<and> (\<Sum>x\<leftarrow>map fst ps. \<bar>x\<bar>) \<le> of_nat (length ps) * 2 ^ 20"
proof (induction ps)
  case Nil
  show ?case by simp
next
  case (Cons p ps)
  define d :: rat where "d = 1 / 2 ^ 32"
  define A :: rat where "A = 2 ^ 20"
  have p: "\<bar>fst p - of_int (snd p) / 100\<bar> \<le> d" "\<bar>fst p\<bar> \<le> A"
    using Cons.prems by (simp_all add: near_cents_def d_def A_def)
  have IH: "\<bar>sum_list (map fst ps) - of_int (sum_list (map snd ps)) / 100\<bar> \<le> of_nat (length ps) * d"
    "(\<Sum>x\<leftarrow>map fst ps. \<bar>x\<bar>) \<le> of_nat (length ps) * A"
    using Cons.IH Cons.prems by (simp_all add: d_def A_def)
  have len: "of_nat (length (p # ps)) * d = of_nat (length ps) * d + d"
    "of_nat (length (p # ps)) * A = of_nat (length ps) * A + A"
    by (simp_all add: algebra_simps)
  have split: "sum_list (map fst (p # ps)) - of_int (sum_list (map snd (p # ps))) / 100
     = (fst p - of_int (snd p) / 100) + (sum_list (map fst ps) - of_int (sum_list (map snd ps)) / 100)"
    by (simp add: field_simps)
  have "\<bar>sum_list (map fst (p # ps)) - of_int (sum_list (map snd (p # ps))) / 100\<bar>
      \<le> of_nat (length (p # ps)) * d"
    unfolding split len using p(1) IH(1) by linarith
  moreover have "(\<Sum>x\<leftarrow>map fst (p # ps). \<bar>x\<bar>) \<le> of_nat (length (p # ps)) * A"
    unfolding len using p(2) IH(2) by simp
  ultimately show ?case
    unfolding d_def A_def by blast
qed

lemma round2_near:
  assumes "\<bar>b - of_int K / 100\<bar> \<le> 1 / 400" and "\<bar>of_int K / 100 :: rat\<bar> \<le> 2 ^ 32"
  shows "round2 (Fin b) = Fin (fl (of_int K / 100))"
proof -
  have "b * 100 - of_int K = (b - of_int K / 100) * 100"
    by simp
  then have "\<bar>b * 100 - of_int K\<bar> = \<bar>b - of_int K / 100\<bar> * 100"
    by (simp only: abs_mult)
  also have "\<dots> \<le> (1 / 400) * 100"
    using assms(1) by (intro mult_right_mono) simp_all
  finally have "\<bar>b * 100 - of_int K\<bar> < 1 / 2"
    by simp
  then have "round_half_even (b * 100) = K"
    by (rule round_half_even_unique)
  moreover have "rnd (of_int K / 100) = Fin (fl (of_int K / 100))"
    using assms(2) by (rule rnd_finite) simp_all
  ultimately show ?thesis by simp
qed

lemma rounded_sum:
  assumes "length ps \<le> 1000" and "\<forall>p\<in>set ps. near_cents (fst p) (snd p)"
  shows "round2 (foldl fadd (Fin 0) (map Fin (map fst ps)))
           = Fin (fl (of_int (sum_list (map snd ps)) / 100))
         \<and> \<bar>of_int (sum_list (map snd ps)) / 100 :: rat\<bar> \<le> 2 ^ 31"
proof -
  define n :: rat where "n = of_nat (length ps)"
  define S where "S = sum_list (map fst ps)"
  define K :: rat where "K = of_int (sum_list (map snd ps)) / 100"
  have n: "0 \<le> n" "n \<le> 1000"
    using assms(1) by (simp_all add: n_def)
  from sum_near_cents [OF assms(2)]
  have near: "\<bar>S - K\<bar> \<le> n * (1 / 2 ^ 32)" and abs: "(\<Sum>x\<leftarrow>map fst ps. \<bar>x\<bar>) \<le> n * 2 ^ 20"
    by (simp_all add: n_def S_def K_def)
  have "\<bar>0::rat\<bar> + (\<Sum>x\<leftarrow>map fst ps. \<bar>x\<bar>) + of_nat (length (map fst ps)) * (1 / 2 ^ 22) \<le> 2 ^ 31"
    using abs n by (simp add: n_def)
  from foldl_fadd_error [where M = "2 ^ 31" and u = "1 / 2 ^ 22", OF _ _ _ this]
  obtain b' where b': "foldl fadd (Fin 0) (map Fin (map fst ps)) = Fin b'"
    "\<bar>b' - S\<bar> \<le> n * (1 / 2 ^ 22)"
    by (auto simp: n_def S_def)
  have SS: "\<bar>S\<bar> \<le> n * 2 ^ 20"
    using abs sum_list_abs [of "map fst ps"] by (simp add: S_def comp_def)
  have "\<bar>b' - K\<bar> \<le> n * (1 / 2 ^ 22) + n * (1 / 2 ^ 32)"
    using b'(2) near by linarith
  also have "\<dots> \<le> 1 / 400"
    using n by simp
  finally have close: "\<bar>b' - K\<bar> \<le> 1 / 400" .
  have "\<bar>K\<bar> \<le> n * 2 ^ 20 + n * (1 / 2 ^ 32)"
    using SS near by linarith
  also have "\<dots> \<le> 2 ^ 31"
    using n by simp
  finally have K: "\<bar>K\<bar> \<le> 2 ^ 31" .
  then have "\<bar>K\<bar> \<le> 2 ^ 32" by simp
  with close have "round2 (Fin b') = Fin (fl K)"
    unfolding K_def by (rule round2_near)
  with b'(1) K show ?thesis
    by (simp add: K_def)
qed

lemma rounded_difference:
  assumes "\<bar>of_int I / 100 :: rat\<bar> \<le> 2 ^ 31" and "\<bar>of_int E / 100 :: rat\<bar> \<le> 2 ^ 31"
  shows "round2 (fsub (Fin (fl (of_int I / 100))) (Fin (fl (of_int E / 100))))
           = Fin (fl (of_int (I - E) / 100))"
proof -
  define i :: rat where "i = of_int I / 100"
  define e :: rat where "e = of_int E / 100"
  define y where "y = fl i - fl e"
  have i: "\<bar>i\<bar> \<le> 2147483648" and e: "\<bar>e\<bar> \<le> 2147483648"
    using assms by (simp_all add: i_def e_def)
  have "\<bar>fl i - i\<bar> \<le> 2147483648 / 2 ^ 53"
    using i by (rule fl_error) simp
  then have ei: "\<bar>fl i - i\<bar> \<le> 1 / 4194304"
    by simp
  have "\<bar>fl e - e\<bar> \<le> 2147483648 / 2 ^ 53"
    using e by (rule fl_error) simp
  then have ee: "\<bar>fl e - e\<bar> \<le> 1 / 4194304"
    by simp
  have y: "\<bar>y\<bar> \<le> 8589934592"
    using ei ee i e unfolding y_def by linarith
  have "\<bar>fl y - y\<bar> \<le> 8589934592 / 2 ^ 53"
    using y by (rule fl_error) simp
  then have ey: "\<bar>fl y - y\<bar> \<le> 1 / 1048576"
    by simp
  have sub: "fsub (Fin (fl i)) (Fin (fl e)) = Fin (fl y)"
    using rnd_finite [OF y] by (simp add: fsub_def y_def)
  have ie: "of_int (I - E) / 100 = i - e"
    by (simp add: i_def e_def field_simps)
  have "\<bar>fl y - (i - e)\<bar> \<le> 1 / 400"
    using ei ee ey unfolding y_def by linarith
  moreover have "\<bar>i - e\<bar> \<le> 2 ^ 32"
    using i e by simp
  ultimately have "round2 (Fin (fl y)) = Fin (fl (of_int (I - E) / 100))"
    unfolding ie [symmetric] by (rule round2_near)
  with sub show ?thesis
    by (simp add: i_def e_def)
qed

section \<open>The stored amount\<close>

lemma rnd_unit: "\<bar>x\<bar> \<le> 1 \<Longrightarrow> rnd x = Fin (fl x)"
  using rnd_finite [of x 1] by simp

lemma round_half_even_nearest: "nearest_cent x (round_half_even (x * 100))"
proof -
  define y where "y = x * 100"
  define f where "f = \<lfloor>y\<rfloor>"
  have f: "of_int f \<le> y" "y < of_int f + 1"
    unfolding f_def by linarith+
  consider "y - of_int f < 1 / 2" | "1 / 2 < y - of_int f" | "y - of_int f = 1 / 2"
    by linarith
  then have "\<bar>y - of_int (round_half_even y)\<bar> \<le> 1 / 2
      \<and> (\<bar>y - of_int (round_half_even y)\<bar> = 1 / 2 \<longrightarrow> even (round_half_even y))"
  proof cases
    case 1
    then have "round_half_even y = f"
      by (simp add: round_half_even_def Let_def f_def)
    with 1 f show ?thesis by simp
  next
    case 2
    then have "round_half_even y = f + 1"
      by (simp add: round_half_even_def Let_def f_def)
    with 2 f show ?thesis by simp
  next
    case 3
    then have "round_half_even y = (if even f then f else f + 1)"
      by (simp add: round_half_even_def Let_def f_def)
    with 3 show ?thesis by auto
  qed
  then show ?thesis
    by (simp add: nearest_cent_def y_def)
qed

lemma nearest_cent_unique:
  assumes "nearest_cent x k"
  shows "round_half_even (x * 100) = k"
proof -
  define y where "y = x * 100"
  define f where "f = \<lfloor>y\<rfloor>"
  have f: "of_int f \<le> y" "y < of_int f + 1"
    unfolding f_def by linarith+
  have k: "\<bar>y - of_int k\<bar> \<le> 1 / 2" and tie: "\<bar>y - of_int k\<bar> = 1 / 2 \<Longrightarrow> even k"
    using assms by (simp_all add: nearest_cent_def y_def)
  have "(of_int f :: rat) - 1 < of_int k" and "(of_int k :: rat) < of_int f + 2"
    using f k by linarith+
  then have "(of_int (f - 1) :: rat) < of_int k" and "(of_int k :: rat) < of_int (f + 2)"
    by simp_all
  then have "f - 1 < k" and "k < f + 2"
    by (simp_all only: of_int_less_iff)
  then have kf: "k = f \<or> k = f + 1"
    by linarith
  consider "y - of_int f < 1 / 2" | "1 / 2 < y - of_int f" | "y - of_int f = 1 / 2"
    by linarith
  then have "round_half_even y = k"
  proof cases
    case 1
    then have r: "round_half_even y = f"
      by (simp add: round_half_even_def Let_def f_def)
    from 1 k have "k \<noteq> f + 1" by auto
    with kf r show ?thesis by simp
  next
    case 2
    then have r: "round_half_even y = f + 1"
      by (simp add: round_half_even_def Let_def f_def)
    from 2 k have "k \<noteq> f" by auto
    with kf r show ?thesis by simp
  next
    case 3
    then have r: "round_half_even y = (if even f then f else f + 1)"
      by (simp add: round_half_even_def Let_def f_def)
    from 3 kf have "\<bar>y - of_int k\<bar> = 1 / 2" by auto
    then have "even k" by (rule tie)
    with kf r show ?thesis by auto
  qed
  then show ?thesis
    by (simp add: y_def)
qed

lemma rounded_to_cents_iff: "rounded_to_cents amt a \<longleftrightarrow> a = round2 amt"
proof (cases amt)
  case (Fin x)
  show ?thesis
  proof
    assume "rounded_to_cents amt a"
    then obtain k where "nearest_cent x k" and a: "a = rnd (of_int k / 100)"
      using Fin by auto
    then have "round_half_even (x * 100) = k"
      by (simp add: nearest_cent_unique)
    with a Fin show "a = round2 amt" by simp
  next
    assume "a = round2 amt"
    with Fin round_half_even_nearest [of x] show "rounded_to_cents amt a"
      by auto
  qed
next
  case PInf
  then show ?thesis by simp
next
  case NInf
  then show ?thesis by simp
next
  case NaN
  then show ?thesis by simp
qed

lemma round2_one_eighth: "round2 (Fin (1 / 8)) = Fin (1080863910568919 / 9007199254740992)"
proof -
  have "round_half_even (1 / 8 * 100) = 12"
    by code_simp
  then have "round2 (Fin (1 / 8)) = rnd (of_int 12 / 100)"
    by (simp only: round2.simps)
  also have "\<dots> = rnd (3 / 25)"
    by simp
  also have "\<dots> = Fin (fl (3 / 25))"
    by (rule rnd_unit) simp
  also have "fl (3 / 25) = 1080863910568919 / 9007199254740992"
    by code_simp
  finally show ?thesis .
qed

text \<open>A NaN answer to the amount prompt is not \<open>\<le> 0\<close> and is passed on to \<^verbatim>\<open>add_transaction\<close>.\<close>

lemma handle_add_nan:
  "handle_add now ty cat NaN desc l fs = add_transaction now ty cat NaN desc l fs"
  by (simp add: handle_add_def)

text \<open>
  C7. \<^verbatim>\<open>add_transaction\<close> appends one transaction that carries the current \<open>next_id\<close>
  and, as its amount, the given amount rounded to 2 decimal places (the float nearest to the
  multiple of \<open>1 / 100\<close> nearest to the given amount), and adds one to \<open>next_id\<close>;
  \<^verbatim>\<open>handle_add\<close> makes that call when the amount is positive, and on an amount
  \<open>\<le> 0\<close> it returns the ledger and the files as they were.
\<close>

theorem add_appends_and_rejects:
  "(\<exists>a. rounded_to_cents amt a
      \<and> fst (add_transaction now ty cat amt desc l fs) =
          l\<lparr>transactions := transactions l @
               [\<lparr>tx_id = next_id l, date = now, tx_type = ty, category = cat,
                 amount = a, description = desc\<rparr>],
            next_id := next_id l + 1\<rparr>)
   \<and> (positive amt \<longrightarrow>
        handle_add now ty cat amt desc l fs = add_transaction now ty cat amt desc l fs)
   \<and> (fle amt (Fin 0) \<longrightarrow> handle_add now ty cat amt desc l fs = (l, fs, [AmountRejected]))"
proof -
  have "rounded_to_cents amt (round2 amt)"
    by (simp add: rounded_to_cents_iff)
  then have "\<exists>a. rounded_to_cents amt a
      \<and> fst (add_transaction now ty cat amt desc l fs) =
          l\<lparr>transactions := transactions l @
               [\<lparr>tx_id = next_id l, date = now, tx_type = ty, category = cat,
                 amount = a, description = desc\<rparr>],
            next_id := next_id l + 1\<rparr>"
    using add_transaction_ledger [of now ty cat amt desc l fs] by blast
  then show ?thesis
    using positive_not_le_zero [of amt] by (simp add: handle_add_def)
qed

theorem add_appends_and_rejects_witness:
  "positive (Fin (1 / 8))
   \<and> fst (handle_add ''2024-03-03 08:00:00'' ''expense'' ''Coffee'' (Fin (1 / 8)) ''Tip'' ex_ledger ex_fs)
       = ex_ledger\<lparr>transactions := [salary, groceries,
            \<lparr>tx_id = 3, date = ''2024-03-03 08:00:00'', tx_type = ''expense'',
              category = ''Coffee'', amount = Fin (1080863910568919 / 9007199254740992),
              description = ''Tip''\<rparr>],
          next_id := 4\<rparr>
   \<and> fle (Fin (- 3)) (Fin 0)
   \<and> handle_add ''2024-03-03 08:00:00'' ''expense'' ''Coffee'' (Fin (- 3)) ''Tip'' ex_ledger ex_fs
       = (ex_ledger, ex_fs, [AmountRejected])"
proof -
  have p: "positive (Fin (1 / 8))"
    by (simp add: positive_def)
  from add_appends_and_rejects
      [of "Fin (1 / 8)" "''2024-03-03 08:00:00''" "''expense''" "''Coffee''" "''Tip''" ex_ledger ex_fs]
  obtain a where a: "rounded_to_cents (Fin (1 / 8)) a"
    and l: "fst (add_transaction ''2024-03-03 08:00:00'' ''expense'' ''Coffee'' (Fin (1 / 8)) ''Tip''
                   ex_ledger ex_fs) =
          ex_ledger\<lparr>transactions := transactions ex_ledger @
               [\<lparr>tx_id = next_id ex_ledger, date = ''2024-03-03 08:00:00'', tx_type = ''expense'',
                 category = ''Coffee'', amount = a, description = ''Tip''\<rparr>],
            next_id := next_id ex_ledger + 1\<rparr>"
    and h: "handle_add ''2024-03-03 08:00:00'' ''expense'' ''Coffee'' (Fin (1 / 8)) ''Tip'' ex_ledger ex_fs
          = add_transaction ''2024-03-03 08:00:00'' ''expense'' ''Coffee'' (Fin (1 / 8)) ''Tip''
              ex_ledger ex_fs"
    using p by blast
  from a have "a = Fin (1080863910568919 / 9007199254740992)"
    by (simp only: rounded_to_cents_iff round2_one_eighth)
  with l h have first:
    "fst (handle_add ''2024-03-03 08:00:00'' ''expense'' ''Coffee'' (Fin (1 / 8)) ''Tip'' ex_ledger ex_fs)
       = ex_ledger\<lparr>transactions := [salary, groceries,
            \<lparr>tx_id = 3, date = ''2024-03-03 08:00:00'', tx_type = ''expense'',
              category = ''Coffee'', amount = Fin (1080863910568919 / 9007199254740992),
              description = ''Tip''\<rparr>],
          next_id := 4\<rparr>"
    by (simp add: ex_ledger_def)
  have n: "fle (Fin (- 3)) (Fin 0)"
    by simp
  with add_appends_and_rejects
      [of "Fin (- 3)" "''2024-03-03 08:00:00''" "''expense''" "''Coffee''" "''Tip''" ex_ledger ex_fs]
  have "handle_add ''2024-03-03 08:00:00'' ''expense'' ''Coffee'' (Fin (- 3)) ''Tip'' ex_ledger ex_fs
       = (ex_ledger, ex_fs, [AmountRejected])"
    by blast
  with p first n show ?thesis by blast
qed

section \<open>Balance against summary\<close>

lemma two_decimal_near:
  assumes "two_decimal a"
  shows "a = Fin (fval a) \<and> near_cents (fval a) (cents a)"
proof (cases a)
  case (Fin x)
  define c where "c = round_half_even (x * 100)"
  have x: "\<bar>x\<bar> \<le> 1048576" and fixed: "rnd (of_int c / 100) = Fin x"
    using assms Fin by (simp_all add: c_def)
  have "\<bar>of_int c - x * 100\<bar> \<le> 1 / 2"
    unfolding c_def by (rule round_half_even_error)
  with x have "\<bar>of_int c :: rat\<bar> \<le> 209715200"
    by linarith
  then have c: "\<bar>of_int c / 100 :: rat\<bar> \<le> 2097152"
    by simp
  then have "rnd (of_int c / 100) = Fin (fl (of_int c / 100))"
    by (rule rnd_finite) simp_all
  with fixed have "x = fl (of_int c / 100)"
    by simp
  moreover have "\<bar>fl (of_int c / 100) - of_int c / 100\<bar> \<le> 2097152 / 2 ^ 53"
    using c by (rule fl_error) simp
  ultimately have "\<bar>x - of_int c / 100\<bar> \<le> 1 / 2 ^ 32"
    by simp
  with x Fin show ?thesis
    by (simp add: near_cents_def cents_def c_def)
next
  case PInf
  with assms show ?thesis by simp
next
  case NInf
  with assms show ?thesis by simp
next
  case NaN
  with assms show ?thesis by simp
qed

lemma round2_two_decimal:
  assumes "positive amt" and "fle amt (Fin 1000000)"
  shows "two_decimal (round2 amt)"
proof -
  from assms obtain x where amt: "amt = Fin x" and x: "0 < x" "x \<le> 1000000"
    by (cases amt) (simp_all add: positive_def)
  define c where "c = round_half_even (x * 100)"
  have "\<bar>of_int c - x * 100\<bar> \<le> 1 / 2"
    unfolding c_def by (rule round_half_even_error)
  with x have "\<bar>of_int c :: rat\<bar> \<le> 100000100"
    by linarith
  then have c: "\<bar>of_int c / 100 :: rat\<bar> \<le> 1000001"
    by simp
  then have r: "rnd (of_int c / 100) = Fin (fl (of_int c / 100))"
    by (rule rnd_finite) simp_all
  have "\<bar>fl (of_int c / 100) - of_int c / 100\<bar> \<le> 1000001 / 2 ^ 53"
    using c by (rule fl_error) simp
  then have e: "\<bar>fl (of_int c / 100) - of_int c / 100\<bar> \<le> 1 / 400"
    by simp
  with c have "\<bar>fl (of_int c / 100)\<bar> \<le> 1048576"
    by linarith
  then have small: "\<bar>fl (of_int c / 100)\<bar> \<le> 2 ^ 20"
    by simp
  from c have "\<bar>of_int c / 100 :: rat\<bar> \<le> 4294967296"
    by linarith
  then have "\<bar>of_int c / 100 :: rat\<bar> \<le> 2 ^ 32"
    by simp
  with e have "round2 (Fin (fl (of_int c / 100))) = Fin (fl (of_int c / 100))"
    by (rule round2_near)
  with small r show ?thesis
    by (simp add: amt c_def)
qed

lemma add_delete_two_decimal:
  "add_delete_reachable l fs \<Longrightarrow> \<forall>t\<in>set (transactions l). two_decimal (amount t)"
proof (induction rule: add_delete_reachable.induct)
  case (ad_start path fs l out)
  then show ?case by simp
next
  case (ad_add l fs amt now ty cat desc l' fs' out)
  have "l' = fst (add_transaction now ty cat amt desc l fs)"
    using ad_add.hyps(4) by simp
  then show ?case
    using ad_add.IH round2_two_decimal [OF ad_add.hyps(2,3)]
    by (simp add: add_transaction_ledger)
next
  case (ad_delete l fs i b l' fs' out)
  have "l' = fst (snd (delete_transaction i l fs))"
    using ad_delete.hyps(2) by simp
  then show ?case
    using ad_delete.IH by (simp add: delete_keeps_others)
qed

lemma balance_loop_foldl:
  "balance_loop txs b =
     foldl fadd b (map (\<lambda>t. if tx_type t = ''income'' then amount t else fneg (amount t))
       (filter (\<lambda>t. tx_type t = ''income'' \<or> tx_type t = ''expense'') txs))"
  by (induction txs arbitrary: b) (simp_all add: fsub_def)

lemma summary_loop_foldl:
  "income (summary_loop txs s) =
     foldl fadd (income s) (map (\<lambda>t. if True then amount t else fneg (amount t))
       (filter (\<lambda>t. tx_type t = ''income'') txs))
   \<and> expense (summary_loop txs s) =
     foldl fadd (expense s) (map (\<lambda>t. if True then amount t else fneg (amount t))
       (filter (\<lambda>t. tx_type t = ''expense'') txs))"
  by (induction txs arbitrary: s) simp_all

lemma near_cents_neg: "near_cents x k \<Longrightarrow> near_cents (- x) (- k)"
proof -
  assume "near_cents x k"
  then have "\<bar>x - of_int k / 100\<bar> \<le> 1 / 2 ^ 32" and "\<bar>x\<bar> \<le> 2 ^ 20"
    by (simp_all only: near_cents_def)
  moreover have "- x - of_int (- k) / 100 = - (x - of_int k / 100)"
    by simp
  ultimately show ?thesis
    by (simp only: near_cents_def abs_minus)
qed

lemma signed_pairs:
  assumes "\<forall>t\<in>set txs. two_decimal (amount t)"
  shows "map (\<lambda>t. if sg t then amount t else fneg (amount t)) txs
           = map Fin (map fst (map (\<lambda>t. if sg t then (fval (amount t), cents (amount t))
                                      else (- fval (amount t), - cents (amount t))) txs))
         \<and> (\<forall>p\<in>set (map (\<lambda>t. if sg t then (fval (amount t), cents (amount t))
                                      else (- fval (amount t), - cents (amount t))) txs).
               near_cents (fst p) (snd p))
         \<and> sum_list (map snd (map (\<lambda>t. if sg t then (fval (amount t), cents (amount t))
                                      else (- fval (amount t), - cents (amount t))) txs))
             = (\<Sum>t\<leftarrow>txs. if sg t then cents (amount t) else - cents (amount t))"
  using assms
proof (induction txs)
  case Nil
  show ?case by simp
next
  case (Cons t txs)
  from Cons.prems have td: "two_decimal (amount t)"
    by simp
  from two_decimal_near [OF td]
  have a: "amount t = Fin (fval (amount t))" and n: "near_cents (fval (amount t)) (cents (amount t))"
    by simp_all
  have na: "fneg (amount t) = Fin (- fval (amount t))"
    by (subst a) simp
  from Cons.IH Cons.prems
  have IH: "map (\<lambda>t. if sg t then amount t else fneg (amount t)) txs
           = map Fin (map fst (map (\<lambda>t. if sg t then (fval (amount t), cents (amount t))
                                      else (- fval (amount t), - cents (amount t))) txs))"
    "\<forall>p\<in>set (map (\<lambda>t. if sg t then (fval (amount t), cents (amount t))
                                      else (- fval (amount t), - cents (amount t))) txs).
               near_cents (fst p) (snd p)"
    "sum_list (map snd (map (\<lambda>t. if sg t then (fval (amount t), cents (amount t))
                                      else (- fval (amount t), - cents (amount t))) txs))
             = (\<Sum>t\<leftarrow>txs. if sg t then cents (amount t) else - cents (amount t))"
    by simp_all
  show ?case
  proof (cases "sg t")
    case True
    with a n IH show ?thesis
      by (simp del: map_map)
  next
    case False
    with na near_cents_neg [OF n] IH show ?thesis
      by (simp del: map_map)
  qed
qed

lemma rounded_selection:
  assumes "length txs \<le> 1000" and "\<forall>t\<in>set txs. two_decimal (amount t)"
  shows "round2 (foldl fadd (Fin 0)
            (map (\<lambda>t. if sg t then amount t else fneg (amount t)) (filter P txs)))
           = Fin (fl (of_int (\<Sum>t\<leftarrow>filter P txs. if sg t then cents (amount t) else - cents (amount t)) / 100))
         \<and> \<bar>of_int (\<Sum>t\<leftarrow>filter P txs. if sg t then cents (amount t) else - cents (amount t)) / 100 :: rat\<bar>
             \<le> 2 ^ 31"
proof -
  define ps where "ps = map (\<lambda>t. if sg t then (fval (amount t), cents (amount t))
                             else (- fval (amount t), - cents (amount t))) (filter P txs)"
  have "length ps = length (filter P txs)"
    by (simp add: ps_def)
  also have "\<dots> \<le> length txs"
    by simp
  finally have len: "length ps \<le> 1000"
    using assms(1) by linarith
  have sel: "\<forall>t\<in>set (filter P txs). two_decimal (amount t)"
    using assms(2) by simp
  from signed_pairs [OF sel, of sg]
  have eq: "map (\<lambda>t. if sg t then amount t else fneg (amount t)) (filter P txs) = map Fin (map fst ps)"
    and near: "\<forall>p\<in>set ps. near_cents (fst p) (snd p)"
    and sum: "sum_list (map snd ps)
      = (\<Sum>t\<leftarrow>filter P txs. if sg t then cents (amount t) else - cents (amount t))"
    unfolding ps_def by blast+
  from rounded_sum [OF len near] show ?thesis
    unfolding eq sum .
qed

lemma net_cents:
  "(\<Sum>t\<leftarrow>filter (\<lambda>t. tx_type t = ''income'' \<or> tx_type t = ''expense'') txs.
       if tx_type t = ''income'' then cents (amount t) else - cents (amount t))
     = (\<Sum>t\<leftarrow>filter (\<lambda>t. tx_type t = ''income'') txs. if True then cents (amount t) else - cents (amount t))
       - (\<Sum>t\<leftarrow>filter (\<lambda>t. tx_type t = ''expense'') txs. if True then cents (amount t) else - cents (amount t))"
  by (induction txs) simp_all

lemma balance_is_rounded_difference:
  assumes "length (transactions l) \<le> 1000" and "\<forall>t\<in>set (transactions l). two_decimal (amount t)"
  shows "calculate_balance l
    = round2 (fsub (income (generate_summary l)) (expense (generate_summary l)))"
proof -
  let ?txs = "transactions l"
  define K where "K = (\<Sum>t\<leftarrow>filter (\<lambda>t. tx_type t = ''income'' \<or> tx_type t = ''expense'') ?txs.
       if tx_type t = ''income'' then cents (amount t) else - cents (amount t))"
  define I where "I = (\<Sum>t\<leftarrow>filter (\<lambda>t. tx_type t = ''income'') ?txs.
       if True then cents (amount t) else - cents (amount t))"
  define E where "E = (\<Sum>t\<leftarrow>filter (\<lambda>t. tx_type t = ''expense'') ?txs.
       if True then cents (amount t) else - cents (amount t))"
  have K: "K = I - E"
    unfolding K_def I_def E_def by (rule net_cents)
  have bal: "calculate_balance l = Fin (fl (of_int K / 100))"
    unfolding calculate_balance_def balance_loop_foldl K_def
    using rounded_selection [OF assms, of "\<lambda>t. tx_type t = ''income''"
        "\<lambda>t. tx_type t = ''income'' \<or> tx_type t = ''expense''"]
    by simp
  have inc: "income (generate_summary l) = Fin (fl (of_int I / 100))"
    and I: "\<bar>of_int I / 100 :: rat\<bar> \<le> 2 ^ 31"
    unfolding I_def
    using rounded_selection [OF assms, of "\<lambda>t. True" "\<lambda>t. tx_type t = ''income''"]
      summary_loop_foldl [of ?txs "\<lparr>income = Fin 0, expense = Fin 0\<rparr>"]
    by (simp_all add: generate_summary_def Let_def)
  have exp: "expense (generate_summary l) = Fin (fl (of_int E / 100))"
    and E: "\<bar>of_int E / 100 :: rat\<bar> \<le> 2 ^ 31"
    unfolding E_def
    using rounded_selection [OF assms, of "\<lambda>t. True" "\<lambda>t. tx_type t = ''expense''"]
      summary_loop_foldl [of ?txs "\<lparr>income = Fin 0, expense = Fin 0\<rparr>"]
    by (simp_all add: generate_summary_def Let_def)
  show ?thesis
    unfolding bal inc exp K by (rule rounded_difference [OF I E, symmetric])
qed

lemma float_three_tenths:
  "rnd (3 / 10) = Fin (5404319552844595 / 18014398509481984)" "round2 (Fin (5404319552844595 / 18014398509481984)) = Fin (5404319552844595 / 18014398509481984)" "fadd (Fin 0) (Fin (5404319552844595 / 18014398509481984)) = Fin (5404319552844595 / 18014398509481984)"
proof -
  have f: "fl (3 / 10) = 5404319552844595 / 18014398509481984"
    by code_simp
  show r: "rnd (3 / 10) = Fin (5404319552844595 / 18014398509481984)"
    using rnd_unit [of "3 / 10"] by (simp add: f)
  have "round_half_even (5404319552844595 / 18014398509481984 * 100) = 30"
    by code_simp
  then have "round2 (Fin (5404319552844595 / 18014398509481984)) = rnd (of_int 30 / 100)"
    by (simp only: round2.simps)
  also have "\<dots> = rnd (3 / 10)"
    by simp
  finally show "round2 (Fin (5404319552844595 / 18014398509481984)) = Fin (5404319552844595 / 18014398509481984)"
    using r by simp
  have "fl (5404319552844595 / 18014398509481984) = 5404319552844595 / 18014398509481984"
    by code_simp
  then show "fadd (Fin 0) (Fin (5404319552844595 / 18014398509481984)) = Fin (5404319552844595 / 18014398509481984)"
    using rnd_unit [of "5404319552844595 / 18014398509481984"] by simp
qed

lemma float_one_tenth:
  "rnd (1 / 10) = Fin (3602879701896397 / 36028797018963968)" "round2 (Fin (3602879701896397 / 36028797018963968)) = Fin (3602879701896397 / 36028797018963968)" "fadd (Fin 0) (Fin (3602879701896397 / 36028797018963968)) = Fin (3602879701896397 / 36028797018963968)"
proof -
  have f: "fl (1 / 10) = 3602879701896397 / 36028797018963968"
    by code_simp
  show r: "rnd (1 / 10) = Fin (3602879701896397 / 36028797018963968)"
    using rnd_unit [of "1 / 10"] by (simp add: f)
  have "round_half_even (3602879701896397 / 36028797018963968 * 100) = 10"
    by code_simp
  then have "round2 (Fin (3602879701896397 / 36028797018963968)) = rnd (of_int 10 / 100)"
    by (simp only: round2.simps)
  also have "\<dots> = rnd (1 / 10)"
    by simp
  finally show "round2 (Fin (3602879701896397 / 36028797018963968)) = Fin (3602879701896397 / 36028797018963968)"
    using r by simp
  have "fl (3602879701896397 / 36028797018963968) = 3602879701896397 / 36028797018963968"
    by code_simp
  then show "fadd (Fin 0) (Fin (3602879701896397 / 36028797018963968)) = Fin (3602879701896397 / 36028797018963968)"
    using rnd_unit [of "3602879701896397 / 36028797018963968"] by simp
qed

lemma float_difference:
  "fsub (Fin (5404319552844595 / 18014398509481984)) (Fin (3602879701896397 / 36028797018963968)) = Fin (7205759403792793 / 36028797018963968)" "round2 (Fin (7205759403792793 / 36028797018963968)) = Fin (3602879701896397 / 18014398509481984)"
proof -
  have d: "5404319552844595 / 18014398509481984 + - (3602879701896397 / 36028797018963968) = (7205759403792793 / 36028797018963968 :: rat)"
    by simp
  have "fl (7205759403792793 / 36028797018963968) = 7205759403792793 / 36028797018963968"
    by code_simp
  then have "rnd (7205759403792793 / 36028797018963968) = Fin (7205759403792793 / 36028797018963968)"
    using rnd_unit [of "7205759403792793 / 36028797018963968"] by simp
  then show "fsub (Fin (5404319552844595 / 18014398509481984)) (Fin (3602879701896397 / 36028797018963968)) = Fin (7205759403792793 / 36028797018963968)"
    by (simp only: fsub_def fneg.simps fadd.simps d)
  have "round_half_even (7205759403792793 / 36028797018963968 * 100) = 20"
    by code_simp
  then have "round2 (Fin (7205759403792793 / 36028797018963968)) = rnd (of_int 20 / 100)"
    by (simp only: round2.simps)
  also have "\<dots> = rnd (1 / 5)"
    by simp
  also have "\<dots> = Fin (fl (1 / 5))"
    by (rule rnd_unit) simp
  also have "fl (1 / 5) = 3602879701896397 / 18014398509481984"
    by code_simp
  finally show "round2 (Fin (7205759403792793 / 36028797018963968)) = Fin (3602879701896397 / 18014398509481984)" .
qed

lemma tenths_transactions:
  "transactions (fst tenths_run) =
     [\<lparr>tx_id = 1, date = ''2024-03-01 09:00:00'', tx_type = ''income'', category = ''Gift'',
       amount = Fin (5404319552844595 / 18014398509481984), description = ''Coins''\<rparr>,
      \<lparr>tx_id = 2, date = ''2024-03-02 18:30:00'', tx_type = ''expense'', category = ''Sweets'',
       amount = Fin (3602879701896397 / 36028797018963968), description = ''Gum''\<rparr>]"
  by (simp add: tenths_run_def add_transaction_def save_transactions_def write_file_def ex_fs_def
      Let_def float_three_tenths float_one_tenth del: round2.simps)

text \<open>
  C1, as the code has it. After an income of \<^verbatim>\<open>0.3\<close> and an expense of \<^verbatim>\<open>0.1\<close> the
  balance is the float \<^verbatim>\<open>0.2\<close>, the two totals are the floats \<^verbatim>\<open>0.3\<close> and \<^verbatim>\<open>0.1\<close>, and
  their float difference is \<^verbatim>\<open>0.19999999999999998\<close>.
\<close>

theorem balance_differs_from_summary_difference:
  "calculate_balance (fst tenths_run) = Fin (3602879701896397 / 18014398509481984)
   \<and> income (generate_summary (fst tenths_run)) = Fin (5404319552844595 / 18014398509481984)
   \<and> expense (generate_summary (fst tenths_run)) = Fin (3602879701896397 / 36028797018963968)
   \<and> fsub (income (generate_summary (fst tenths_run))) (expense (generate_summary (fst tenths_run)))
       = Fin (7205759403792793 / 36028797018963968)
   \<and> calculate_balance (fst tenths_run)
       \<noteq> fsub (income (generate_summary (fst tenths_run))) (expense (generate_summary (fst tenths_run)))"
proof -
  have b: "calculate_balance (fst tenths_run) = Fin (3602879701896397 / 18014398509481984)"
    by (simp add: calculate_balance_def tenths_transactions float_three_tenths float_difference
        del: round2.simps fadd.simps)
  have i: "income (generate_summary (fst tenths_run)) = Fin (5404319552844595 / 18014398509481984)"
    and e: "expense (generate_summary (fst tenths_run)) = Fin (3602879701896397 / 36028797018963968)"
    by (simp_all add: generate_summary_def tenths_transactions float_three_tenths float_one_tenth
        Let_def del: round2.simps fadd.simps)
  show ?thesis
    unfolding b i e float_difference by simp
qed

lemma add_many_add_delete_reachable:
  "add_delete_reachable l fs \<Longrightarrow>
   list_all (\<lambda>(now, ty, cat, amt, desc). positive amt \<and> fle amt (Fin 1000000)) cs \<Longrightarrow>
   add_delete_reachable (fst (add_many cs l fs)) (snd (add_many cs l fs))"
proof (induction cs arbitrary: l fs)
  case Nil
  then show ?case by simp
next
  case (Cons c cs)
  obtain now ty cat amt desc where c: "c = (now, ty, cat, amt, desc)"
    by (cases c) auto
  obtain l1 fs1 out1 where step: "add_transaction now ty cat amt desc l fs = (l1, fs1, out1)"
    by (cases "add_transaction now ty cat amt desc l fs") auto
  from Cons.prems(2) c have amt: "positive amt" "fle amt (Fin 1000000)"
    and rest: "list_all (\<lambda>(now, ty, cat, amt, desc). positive amt \<and> fle amt (Fin 1000000)) cs"
    by simp_all
  have "add_delete_reachable l1 fs1"
    using Cons.prems(1) amt step by (rule ad_add)
  from Cons.IH [OF this rest] show ?case
    by (simp add: c step)
qed

text \<open>
  C1, amended. For a ledger reached from an empty one by adds of positive amounts of at most
  1000000 and by deletes, and holding at most 1000 transactions, the balance is the difference
  of the two summary totals after that difference is itself rounded to 2 decimals.
\<close>

theorem balance_is_rounded_summary_difference:
  assumes "add_delete_reachable l fs" and "length (transactions l) \<le> 1000"
  shows "calculate_balance l
    = round2 (fsub (income (generate_summary l)) (expense (generate_summary l)))"
  using assms(2) add_delete_two_decimal [OF assms(1)] by (rule balance_is_rounded_difference)

theorem balance_is_rounded_summary_difference_witness:
  "add_delete_reachable (fst tenths_run) (snd tenths_run)
   \<and> length (transactions (fst tenths_run)) \<le> 1000
   \<and> calculate_balance (fst tenths_run)
       = round2 (fsub (income (generate_summary (fst tenths_run)))
                      (expense (generate_summary (fst tenths_run))))"
proof -
  have "add_delete_reachable \<lparr>data_file = ''ledger_data.json'', transactions = [], next_id = 1\<rparr> ex_fs"
    by (rule ad_start [where path = "''ledger_data.json''" and out = "[FreshLedger]"])
      (simp_all add: init_def ex_fs_def)
  then have r: "add_delete_reachable (fst tenths_run) (snd tenths_run)"
    unfolding tenths_run_def
    by (rule add_many_add_delete_reachable) (simp add: positive_def float_three_tenths float_one_tenth)
  have n: "length (transactions (fst tenths_run)) \<le> 1000"
    by (simp add: tenths_transactions)
  from r n balance_is_rounded_summary_difference [OF r n] show ?thesis
    by blast
qed

end
